theory Spec2Isabelle
  imports
    Main
    "HOL-Library.Sublist"
    "HOL-Library.Multiset"
    "HOL-Library.Char_ord"
    "HOL-Library.List_Lexorder"
    "HOL-Library.Product_Lexorder"
begin

section \<open>Data model of \<^verbatim>\<open>lsviz/main.py\<close>\<close>

text \<open>
  Python objects are mutable and shared: a child node is referenced from its parent's
  \<^verbatim>\<open>all_children\<close> and \<^verbatim>\<open>visible_children\<close> lists and from the lookup table of the
  tree builder. The model therefore keeps the nodes in a store, a function from
  addresses to node records, and every list of nodes is a list of addresses.

  Strings are \<^typ>\<open>string\<close>; their order is the lexicographic order of the character
  codes, as Python's \<^verbatim>\<open>str.__lt__\<close>. Python's unbounded integers are \<^typ>\<open>int\<close>.
\<close>

type_synonym addr = nat

text \<open>
  A \<^verbatim>\<open>pathlib.Path\<close> is kept in parsed form: whether it is anchored at the root
  \<^verbatim>\<open>/\<close>, and its components. \<^verbatim>\<open>Path()\<close> is \<open>Path False []\<close> and \<^verbatim>\<open>Path("/")\<close> is
  \<open>Path True []\<close>.
\<close>

datatype Path = Path (anchored: bool) (parts: "string list")

text \<open>\<^verbatim>\<open>Path.name\<close>: the final component, the empty string when there is none.\<close>

definition path_name :: "Path \<Rightarrow> string" where
  "path_name p = (if parts p = [] then [] else last (parts p))"

text \<open>
  \<^verbatim>\<open>Path.parents\<close>: the logical ancestors, nearest first; \<^verbatim>\<open>path.parents[::-1]\<close> is the
  reversed sequence, from the root down to the immediate parent.
\<close>

definition path_parents :: "Path \<Rightarrow> Path list" where
  "path_parents p = map (\<lambda>k. Path (anchored p) (take k (parts p))) (rev [0..<length (parts p)])"

text \<open>\<^verbatim>\<open>class Column(IntEnum)\<close>; a \<^verbatim>\<open>Sorting\<close> stores the column as a plain \<^verbatim>\<open>int\<close>.\<close>

definition Column_Name :: int where "Column_Name = 0"
definition Column_Size :: int where "Column_Size = 1"
definition Column_Modified :: int where "Column_Modified = 2"
definition Column_Permissions :: int where "Column_Permissions = 3"
definition Column_Owner :: int where "Column_Owner = 4"

datatype SortOrder = AscendingOrder | DescendingOrder

record Sorting =
  column :: int
  order :: SortOrder

record FSNode =
  path :: Path
  name :: string
  name_lower :: string
  is_dir :: bool
  parent :: "addr option"
  all_children :: "addr list"
  visible_children :: "addr list"
  BATCH :: int
  fetched_items :: int
  size' :: int
  modified :: string
  permissions :: string
  owner :: string
  current_sort_state :: "Sorting option"

type_synonym heap = "addr \<Rightarrow> FSNode"

datatype error = ValueError | TypeError | IndexError

text \<open>
  \<^verbatim>\<open>str.lower()\<close> on the ASCII range: the letters \<^verbatim>\<open>A\<close> to \<^verbatim>\<open>Z\<close> move to \<^verbatim>\<open>a\<close> to \<^verbatim>\<open>z\<close>,
  every other character is kept.
\<close>

definition lower_char :: "char \<Rightarrow> char" where
  "lower_char c =
     (if CHR ''A'' \<le> c \<and> c \<le> CHR ''Z'' then char_of (of_char c + (32::nat)) else c)"

definition lower :: "string \<Rightarrow> string" where
  "lower s = map lower_char s"

text \<open>\<^verbatim>\<open>FSNode.__init__\<close>.\<close>

definition FSNode_init ::
  "Path \<Rightarrow> int \<Rightarrow> string \<Rightarrow> string \<Rightarrow> string \<Rightarrow> addr option \<Rightarrow> FSNode" where
  "FSNode_init p sz md perms ow par =
     \<lparr> path = p,
       name = path_name p,
       name_lower = lower (path_name p),
       is_dir = (perms = [] \<or> hd perms = CHR ''d''),
       parent = par,
       all_children = [],
       visible_children = [],
       BATCH = 10000,
       fetched_items = 10000,
       size' = sz,
       modified = md,
       permissions = perms,
       owner = ow,
       current_sort_state = None \<rparr>"

text \<open>\<^verbatim>\<open>FSNode.append_child\<close>, on the node at address \<open>a\<close>.\<close>

definition append_child :: "heap \<Rightarrow> addr \<Rightarrow> addr \<Rightarrow> heap" where
  "append_child h a child =
     h(a := (h a)\<lparr> all_children := all_children (h a) @ [child],
                   visible_children := visible_children (h a) @ [child],
                   current_sort_state := None \<rparr>)"

section \<open>Python's \<^verbatim>\<open>list.sort\<close> with a key function\<close>

text \<open>
  The sort keys of \<^verbatim>\<open>FSNode.sort\<close> are pairs of a \<^verbatim>\<open>bool\<close> and a \<^verbatim>\<open>str\<close> or an \<^verbatim>\<open>int\<close>.
\<close>

datatype pyval = PStr string | PInt int

type_synonym sortkey = "bool \<times> pyval"

text \<open>
  \<^verbatim>\<open>a < b\<close> on the second components: two strings or two integers compare, a string
  and an integer raise \<^verbatim>\<open>TypeError\<close>.
\<close>

fun py_lt :: "pyval \<Rightarrow> pyval \<Rightarrow> error + bool" where
  "py_lt (PStr a) (PStr b) = Inr (a < b)"
| "py_lt (PInt a) (PInt b) = Inr (a < b)"
| "py_lt (PStr a) (PInt b) = Inl TypeError"
| "py_lt (PInt a) (PStr b) = Inl TypeError"

text \<open>
  \<^verbatim>\<open>a < b\<close> on two pairs: Python looks for the first position where the components are
  not equal (\<^verbatim>\<open>==\<close>, which never raises here: a string and an integer are just not
  equal) and compares the components there with \<^verbatim>\<open><\<close>; equal pairs are not less.
\<close>

definition tuple_lt :: "sortkey \<Rightarrow> sortkey \<Rightarrow> error + bool" where
  "tuple_lt k1 k2 =
     (if fst k1 \<noteq> fst k2 then Inr (fst k1 < fst k2)
      else if snd k1 = snd k2 then Inr False
      else py_lt (snd k1) (snd k2))"

text \<open>
  The key function is called once for every element, in order, before anything is
  moved; the first call that raises ends the sort.
\<close>

fun keys_of :: "('a \<Rightarrow> error + 'k) \<Rightarrow> 'a list \<Rightarrow> error + ('k \<times> 'a) list" where
  "keys_of kf [] = Inr []"
| "keys_of kf (x # xs) =
     (case kf x of
        Inl e \<Rightarrow> Inl e
      | Inr k \<Rightarrow> (case keys_of kf xs of Inl e \<Rightarrow> Inl e | Inr kvs \<Rightarrow> Inr ((k, x) # kvs)))"

text \<open>
  The sort proper is a stable sort that only uses \<^verbatim>\<open><\<close> on the keys; it is modelled
  as the stable insertion sort. An element is moved past another only when its key
  is less; a comparison that raises ends the sort.
\<close>

fun py_insort ::
  "('k \<Rightarrow> 'k \<Rightarrow> error + bool) \<Rightarrow> 'k \<times> 'a \<Rightarrow> ('k \<times> 'a) list \<Rightarrow> error + ('k \<times> 'a) list" where
  "py_insort lt x [] = Inr [x]"
| "py_insort lt x (y # ys) =
     (case lt (fst y) (fst x) of
        Inl e \<Rightarrow> Inl e
      | Inr True \<Rightarrow> (case py_insort lt x ys of Inl e \<Rightarrow> Inl e | Inr zs \<Rightarrow> Inr (y # zs))
      | Inr False \<Rightarrow> Inr (x # y # ys))"

fun py_isort ::
  "('k \<Rightarrow> 'k \<Rightarrow> error + bool) \<Rightarrow> ('k \<times> 'a) list \<Rightarrow> error + ('k \<times> 'a) list" where
  "py_isort lt [] = Inr []"
| "py_isort lt (x # xs) =
     (case py_isort lt xs of Inl e \<Rightarrow> Inl e | Inr ys \<Rightarrow> py_insort lt x ys)"

text \<open>
  \<^verbatim>\<open>xs.sort(key=kf, reverse=r)\<close>. With \<^verbatim>\<open>reverse\<close> the list is reversed, sorted
  ascending and reversed again, which keeps elements with equal keys in their original
  order. The result is the raised error, if any, and the list as the call leaves it.
  A key function that raises leaves the list as it was. (A comparison that raises
  leaves the elements in the order the sort had reached, which depends on the
  algorithm; the model returns the input order there. The keys of \<^verbatim>\<open>FSNode.sort\<close> never
  lead into that branch.)
\<close>

definition list_sort ::
  "('a \<Rightarrow> error + 'k) \<Rightarrow> ('k \<Rightarrow> 'k \<Rightarrow> error + bool) \<Rightarrow> bool \<Rightarrow> 'a list
     \<Rightarrow> error option \<times> 'a list" where
  "list_sort kf lt reverse xs =
     (case keys_of kf xs of
        Inl e \<Rightarrow> (Some e, xs)
      | Inr kvs \<Rightarrow>
          (case py_isort lt (if reverse then rev kvs else kvs) of
             Inl e \<Rightarrow> (Some e, xs)
           | Inr srt \<Rightarrow> (None, map snd (if reverse then rev srt else srt))))"

section \<open>\<^verbatim>\<open>FSNode.sort\<close>\<close>

text \<open>
  The inner function \<^verbatim>\<open>sort_key\<close>, with the \<^verbatim>\<open>sorting\<close> and \<^verbatim>\<open>reverse\<close> it closes over.
  (\<^verbatim>\<open>sort\<close> and \<^verbatim>\<open>sort_key\<close> are names of the list library, hence the prefix.)
\<close>

definition FSNode_sort_key :: "Sorting \<Rightarrow> bool \<Rightarrow> FSNode \<Rightarrow> error + sortkey" where
  "FSNode_sort_key sorting reverse node =
     (let dir_first = (is_dir node = reverse) in
      if column sorting = Column_Name then Inr (dir_first, PStr (name_lower node))
      else if column sorting = Column_Size then
        Inr (dir_first, if is_dir node then PStr (name_lower node) else PInt (size' node))
      else if column sorting = Column_Modified then Inr (False, PStr (modified node))
      else if column sorting = Column_Permissions then Inr (False, PStr (permissions node))
      else if column sorting = Column_Owner then Inr (False, PStr (owner node))
      else Inl ValueError)"

text \<open>
  \<^verbatim>\<open>FSNode.sort\<close> on the node at address \<open>a\<close>: the raised error, if any, and the store
  the call leaves. The sort state is only assigned when \<^verbatim>\<open>list.sort\<close> returned.
\<close>

definition FSNode_sort :: "heap \<Rightarrow> addr \<Rightarrow> Sorting \<Rightarrow> error option \<times> heap" where
  "FSNode_sort h a sorting =
     (if current_sort_state (h a) = Some sorting then (None, h)
      else
        let reverse = (order sorting = DescendingOrder) in
        (case list_sort (\<lambda>c. FSNode_sort_key sorting reverse (h c)) tuple_lt reverse
                (visible_children (h a)) of
           (Some e, vs) \<Rightarrow> (Some e, h(a := (h a)\<lparr>visible_children := vs\<rparr>))
         | (None, vs) \<Rightarrow>
             (None, h(a := (h a)\<lparr>visible_children := vs, current_sort_state := Some sorting\<rparr>))))"

section \<open>Vocabulary for the sort claims\<close>

text \<open>
  The directories and the files of a list of children, each in the order of the list.
\<close>

definition subdirs :: "heap \<Rightarrow> addr list \<Rightarrow> addr list" where
  "subdirs h cs = filter (\<lambda>c. is_dir (h c)) cs"

definition files :: "heap \<Rightarrow> addr list \<Rightarrow> addr list" where
  "files h cs = filter (\<lambda>c. \<not> is_dir (h c)) cs"

text \<open>
  Ordering a list of children by lower-cased name, ascending and descending, elements
  with equal names keeping the order they had (both are stable).
\<close>

definition name_ascending :: "heap \<Rightarrow> addr list \<Rightarrow> addr list" where
  "name_ascending h cs = sort_key (\<lambda>c. name_lower (h c)) cs"

definition name_descending :: "heap \<Rightarrow> addr list \<Rightarrow> addr list" where
  "name_descending h cs = rev (sort_key (\<lambda>c. name_lower (h c)) (rev cs))"

text \<open>
  The two layouts the specification speaks of: the directories as one block in front
  of the files, and the directories as one block behind the files.
\<close>

definition folders_first :: "heap \<Rightarrow> addr list \<Rightarrow> bool" where
  "folders_first h cs = (cs = subdirs h cs @ files h cs)"

definition folders_last :: "heap \<Rightarrow> addr list \<Rightarrow> bool" where
  "folders_last h cs = (cs = files h cs @ subdirs h cs)"

text \<open>
  A store for examples: \<open>no_nodes\<close> holds a fresh, unattached node at every address.
  In \<open>listing\<close> the root at address 0 has four children, appended in the order
  \<^verbatim>\<open>/b.txt\<close> (file), \<^verbatim>\<open>/docs\<close> (directory), \<^verbatim>\<open>/A.txt\<close> (file), \<^verbatim>\<open>/bin\<close> (directory).
\<close>

definition no_nodes :: heap where
  "no_nodes = (\<lambda>_. FSNode_init (Path False []) 0 [] [] [] None)"

definition listing :: heap where
  "listing =
     fold (\<lambda>c h. append_child h 0 c) [1, 2, 3, 4]
       (no_nodes
         (1 := FSNode_init (Path True [''b.txt'']) 7 ''2024-01-02 10:00'' ''-rw-r--r--'' ''u:g'' (Some 0),
          2 := FSNode_init (Path True [''docs'']) 0 ''2024-01-03 10:00'' ''drwxr-xr-x'' ''u:g'' (Some 0),
          3 := FSNode_init (Path True [''A.txt'']) 9 ''2024-01-01 10:00'' ''-rw-r--r--'' ''u:g'' (Some 0),
          4 := FSNode_init (Path True [''bin'']) 0 ''2024-01-04 10:00'' ''drwxr-xr-x'' ''u:g'' (Some 0)))"

section \<open>\<^verbatim>\<open>FSNode.apply_filter\<close>\<close>

text \<open>
  \<^verbatim>\<open>apply_filter\<close> calls itself on the directory children. The first argument bounds
  the depth of the nested calls, as the interpreter's recursion limit does; \<open>None\<close>
  is the call that does not return within the bound. \<^verbatim>\<open>filter_text in child.name_lower\<close>
  is the test for a contiguous substring, \<^const>\<open>sublist\<close>.

  The new list of visible children is computed from the store as it is before the
  assignment; the loop then runs over \<^verbatim>\<open>self.all_children\<close> and reads \<^verbatim>\<open>child.is_dir\<close> in
  the store as the earlier iterations have left it.
\<close>

fun apply_filter :: "nat \<Rightarrow> heap \<Rightarrow> addr \<Rightarrow> string \<Rightarrow> heap option" where
  "apply_filter 0 h a filter_text = None"
| "apply_filter (Suc d) h a filter_text =
     (let h1 = h(a := (h a)\<lparr> visible_children :=
                  (if filter_text = [] then all_children (h a)
                   else filter (\<lambda>child. sublist filter_text (name_lower (h child)) \<or> is_dir (h child))
                          (all_children (h a))) \<rparr>)
      in fold (\<lambda>child r.
                 case r of
                   None \<Rightarrow> None
                 | Some h2 \<Rightarrow>
                     if is_dir (h2 child) then apply_filter d h2 child filter_text else Some h2)
              (all_children (h1 a)) (Some h1))"

text \<open>
  The nodes a call on \<open>root\<close> reaches: the root, and every directory among the
  children (visible or not) of a node it reaches.
\<close>

inductive_set visited :: "heap \<Rightarrow> addr \<Rightarrow> addr set" for h :: heap and root :: addr where
  visited_root: "root \<in> visited h root"
| visited_child:
    "a \<in> visited h root \<Longrightarrow> c \<in> set (all_children (h a)) \<Longrightarrow> is_dir (h c)
       \<Longrightarrow> c \<in> visited h root"

text \<open>
  The directories below \<open>a\<close> are nested less than \<open>d\<close> deep: the condition under which
  a call with bound \<open>d\<close> returns.
\<close>

fun within_depth :: "heap \<Rightarrow> nat \<Rightarrow> addr \<Rightarrow> bool" where
  "within_depth h 0 a = False"
| "within_depth h (Suc d) a =
     list_all (\<lambda>c. \<not> is_dir (h c) \<or> within_depth h d c) (all_children (h a))"

text \<open>
  The rule of the specification for the visible children of one node: everything when
  the pattern is empty, otherwise the children that are directories or whose
  lower-cased name contains the pattern, in the order of \<^verbatim>\<open>all_children\<close>.
\<close>

definition visible_by_rule :: "heap \<Rightarrow> string \<Rightarrow> addr \<Rightarrow> addr list" where
  "visible_by_rule h pattern a =
     (if pattern = [] then all_children (h a)
      else filter (\<lambda>c. is_dir (h c) \<or> sublist pattern (name_lower (h c))) (all_children (h a)))"

text \<open>The store in which the nodes of \<open>S\<close>, and no others, have their visible children by the rule.\<close>

definition filtered_on :: "string \<Rightarrow> heap \<Rightarrow> addr set \<Rightarrow> heap" where
  "filtered_on pattern h S =
     (\<lambda>x. if x \<in> S then (h x)\<lparr>visible_children := visible_by_rule h pattern x\<rparr> else h x)"

text \<open>
  An example with a file that has a child, the shape the tree builder makes from the
  lines for \<^verbatim>\<open>/x\<close> (a file), \<^verbatim>\<open>/x/zzz\<close> (a file) and \<^verbatim>\<open>/d\<close> (a directory): the root is
  at address 0, \<^verbatim>\<open>/x\<close> at 2, \<^verbatim>\<open>/x/zzz\<close> at 3 and \<^verbatim>\<open>/d\<close> at 4.
\<close>

definition file_with_child :: heap where
  "file_with_child =
     append_child (append_child (append_child
       (no_nodes
         (2 := FSNode_init (Path True [''x'']) 5 ''2024-01-01 10:00'' ''-rw-r--r--'' ''u:g'' (Some 0),
          3 := FSNode_init (Path True [''x'', ''zzz'']) 6 ''2024-01-01 10:00'' ''-rw-r--r--'' ''u:g'' (Some 2),
          4 := FSNode_init (Path True [''d'']) 0 ''2024-01-01 10:00'' ''drwxr-xr-x'' ''u:g'' (Some 0)))
       0 2) 2 3) 0 4"

section \<open>The row interface of \<^verbatim>\<open>FSModel\<close>\<close>

text \<open>
  A model index is the address of the node it points to, or \<open>None\<close> for the invalid
  index, which stands for the root node of the model.
\<close>

definition p_item :: "addr \<Rightarrow> addr option \<Rightarrow> addr" where
  "p_item root_node parent_index = (case parent_index of Some a \<Rightarrow> a | None \<Rightarrow> root_node)"

definition rowCount :: "heap \<Rightarrow> addr \<Rightarrow> addr option \<Rightarrow> int" where
  "rowCount h root_node parent_index =
     min (int (length (visible_children (h (p_item root_node parent_index)))))
         (fetched_items (h (p_item root_node parent_index)))"

definition canFetchMore :: "heap \<Rightarrow> addr option \<Rightarrow> bool" where
  "canFetchMore h parent_index =
     (case parent_index of
        None \<Rightarrow> False
      | Some a \<Rightarrow> fetched_items (h a) < int (length (visible_children (h a))))"

text \<open>
  \<^verbatim>\<open>fetchMore\<close> returns the new store and the first and last row it passes to
  \<^verbatim>\<open>beginInsertRows\<close>.
\<close>

definition fetchMore :: "heap \<Rightarrow> addr \<Rightarrow> addr option \<Rightarrow> heap \<times> int \<times> int" where
  "fetchMore h root_node parent_index =
     (let p = p_item root_node parent_index;
          prev_fetched_items = fetched_items (h p);
          new_fetched_items =
            min (fetched_items (h p) + BATCH (h p)) (int (length (visible_children (h p))))
      in (h(p := (h p)\<lparr>fetched_items := new_fetched_items\<rparr>),
          prev_fetched_items, new_fetched_items - 1))"

text \<open>A directory with 12,001 visible children, the first 10,000 of them fetched.\<close>

definition big_directory :: heap where
  "big_directory =
     no_nodes(0 := (FSNode_init (Path True [''big'']) 0 [] ''drwxr-xr-x'' ''u:g'' None)
                     \<lparr> all_children := [1..<12002], visible_children := [1..<12002] \<rparr>)"

section \<open>The tree builder in \<^verbatim>\<open>HdfsExplorer.load_hdfs_file\<close>\<close>

text \<open>
  One parsed line, the dictionary \<^verbatim>\<open>FSItem\<close>. The fields carry the prefix \<open>item_\<close>
  because \<^verbatim>\<open>owner\<close> and \<^verbatim>\<open>path\<close> are fields of \<^verbatim>\<open>FSNode\<close> as well. The size is the
  value of \<^verbatim>\<open>int(i["size"])\<close> (the pattern of the parser only lets digits through) and
  the path is the value of \<^verbatim>\<open>Path(i["path"])\<close>.
\<close>

record FSItem =
  item_perms :: string
  item_replicas :: string
  item_owner :: string
  item_group :: string
  item_size :: int
  item_dt_mod :: string
  item_path :: Path

text \<open>
  The state of the loop: the store, the next unused address (a new object gets it) and
  the dictionary \<^verbatim>\<open>node_map\<close>.
\<close>

record loader =
  store :: heap
  free :: addr
  node_map :: "Path \<Rightarrow> addr option"

text \<open>
  \<^verbatim>\<open>_children_indices(index)\<close> is a generator: nothing of its body runs before the first
  element is asked for. Then it stops at once if there is no model, and otherwise
  fixes the number of rows (\<^verbatim>\<open>range(self.model.rowCount(index))\<close>) and yields, row by
  row, the index of \<^verbatim>\<open>p_item.visible_children[row]\<close> as the list is at that moment.
\<close>

datatype children_indices =
  Unstarted "addr option"
| Rows addr "nat list"
| Done

text \<open>
  \<^verbatim>\<open>next((i for i in cur_children if i.internalPointer().path == parent), None)\<close> on a
  started generator: the first remaining row whose node has the path, and the rows
  left after it.
\<close>

fun search_rows :: "heap \<Rightarrow> addr \<Rightarrow> Path \<Rightarrow> nat list \<Rightarrow> error + (addr option \<times> nat list)" where
  "search_rows h p target [] = Inr (None, [])"
| "search_rows h p target (row # rows) =
     (if row < length (visible_children (h p)) then
        (if path (h (visible_children (h p) ! row)) = target
         then Inr (Some (visible_children (h p) ! row), rows)
         else search_rows h p target rows)
      else Inl IndexError)"

definition next_with_path ::
  "addr option \<Rightarrow> heap \<Rightarrow> children_indices \<Rightarrow> Path
     \<Rightarrow> error + (addr option \<times> children_indices)" where
  "next_with_path model h cur_children target =
     (case cur_children of
        Done \<Rightarrow> Inr (None, Done)
      | Unstarted index \<Rightarrow>
          (case model of
             None \<Rightarrow> Inr (None, Done)
           | Some root_node \<Rightarrow>
               (case search_rows h (p_item root_node index) target
                       [0..<nat (rowCount h root_node index)] of
                  Inl e \<Rightarrow> Inl e
                | Inr (found, rows) \<Rightarrow> Inr (found, Rows (p_item root_node index) rows)))
      | Rows p rows \<Rightarrow>
          (case search_rows h p target rows of
             Inl e \<Rightarrow> Inl e
           | Inr (found, rows') \<Rightarrow> Inr (found, Rows p rows')))"

text \<open>
  The body of the loop over \<^verbatim>\<open>path.parents[::-1]\<close> for one ancestor \<^verbatim>\<open>parent\<close>, on the
  loader state, \<^verbatim>\<open>cur\<close> and \<^verbatim>\<open>cur_children\<close>.
\<close>

definition resolve_parent ::
  "addr option \<Rightarrow> Path \<Rightarrow> loader \<times> addr \<times> children_indices
     \<Rightarrow> error + (loader \<times> addr \<times> children_indices)" where
  "resolve_parent model parent' s =
     (case s of (st, cur, cur_children) \<Rightarrow>
        (case node_map st parent' of
           Some n \<Rightarrow> Inr (st, n, cur_children)
         | None \<Rightarrow>
             (case next_with_path model (store st) cur_children parent' of
                Inl e \<Rightarrow> Inl e
              | Inr (Some found, g) \<Rightarrow>
                  Inr (st\<lparr>node_map := (node_map st)(parent' \<mapsto> found)\<rparr>,
                       found, Unstarted (Some found))
              | Inr (None, g) \<Rightarrow>
                  Inr (st\<lparr>store := append_child
                                   ((store st)(free st := FSNode_init parent' 0 [] [] [] (Some cur)))
                                   cur (free st),
                          free := Suc (free st),
                          node_map := (node_map st)(parent' \<mapsto> free st)\<rparr>,
                       free st, g))))"

fun resolve_parents ::
  "addr option \<Rightarrow> Path list \<Rightarrow> loader \<times> addr \<times> children_indices
     \<Rightarrow> error + (loader \<times> addr \<times> children_indices)" where
  "resolve_parents model [] s = Inr s"
| "resolve_parents model (p # ps) s =
     (case resolve_parent model p s of
        Inl e \<Rightarrow> Inl e
      | Inr s' \<Rightarrow> resolve_parents model ps s')"

text \<open>
  The body of the loop over the parsed lines for one line: the ancestors are resolved
  from the root down, then the node of the line itself is created, entered in
  \<^verbatim>\<open>node_map\<close> and appended to the last ancestor, without looking whether a node with
  this path exists.
\<close>

definition load_item :: "addr option \<Rightarrow> addr \<Rightarrow> loader \<Rightarrow> FSItem \<Rightarrow> error + loader" where
  "load_item model root st i =
     (case resolve_parents model (rev (path_parents (item_path i))) (st, root, Unstarted None) of
        Inl e \<Rightarrow> Inl e
      | Inr (st1, cur, cur_children) \<Rightarrow>
          Inr (st1\<lparr>store := append_child
                      ((store st1)(free st1 :=
                          FSNode_init (item_path i) (item_size i) (item_dt_mod i) (item_perms i)
                            (item_owner i @ '':'' @ item_group i) (Some cur)))
                      cur (free st1),
                   free := Suc (free st1),
                   node_map := (node_map st1)(item_path i \<mapsto> free st1)\<rparr>))"

fun load_items :: "addr option \<Rightarrow> addr \<Rightarrow> loader \<Rightarrow> FSItem list \<Rightarrow> error + loader" where
  "load_items model root st [] = Inr st"
| "load_items model root st (i # items) =
     (case load_item model root st i of
        Inl e \<Rightarrow> Inl e
      | Inr st' \<Rightarrow> load_items model root st' items)"

text \<open>
  \<^verbatim>\<open>load_hdfs_file\<close> up to the end of the loop over the lines: \<open>model\<close> is the root node
  of the model when there is one, \<open>h\<close> the store and \<open>free_addr\<close> its next unused
  address, \<open>items\<close> the lines the parser yields. Without a model the root is a new
  node for \<^verbatim>\<open>Path()\<close>. The loop stops after 300,000 lines. The result is the loader
  state and the root. (What follows in the source sets up the view, expands and
  sorts; it creates no node.)
\<close>

definition load_hdfs_file ::
  "addr option \<Rightarrow> heap \<Rightarrow> addr \<Rightarrow> FSItem list \<Rightarrow> error + (loader \<times> addr)" where
  "load_hdfs_file model h free_addr items =
     (case model of
        Some root \<Rightarrow>
          (case load_items model root
                  \<lparr>store = h, free = free_addr, node_map = [Path True [] \<mapsto> root]\<rparr>
                  (take 300000 items) of
             Inl e \<Rightarrow> Inl e
           | Inr st \<Rightarrow> Inr (st, root))
      | None \<Rightarrow>
          (case load_items model free_addr
                  \<lparr>store = h(free_addr := FSNode_init (Path False []) 0 [] [] [] None),
                   free = Suc free_addr, node_map = [Path True [] \<mapsto> free_addr]\<rparr>
                  (take 300000 items) of
             Inl e \<Rightarrow> Inl e
           | Inr st \<Rightarrow> Inr (st, free_addr)))"

text \<open>
  The paths of the nodes created so far, in the order of creation, and the invariant
  of the specification: they are pairwise different.
\<close>

definition node_paths :: "loader \<Rightarrow> Path list" where
  "node_paths st = map (\<lambda>a. path (store st a)) [0..<free st]"

definition paths_distinct :: "loader \<Rightarrow> bool" where
  "paths_distinct st = distinct (node_paths st)"

text \<open>
  Two lines of a listing: the file \<^verbatim>\<open>/a/f\<close>, and after it the directory \<^verbatim>\<open>/a\<close>.
\<close>

definition file_then_dir :: "FSItem list" where
  "file_then_dir =
     [\<lparr>item_perms = ''-rw-r--r--'', item_replicas = ''3'', item_owner = ''u'', item_group = ''g'',
       item_size = 100, item_dt_mod = ''2024-01-01 10:00'', item_path = Path True [''a'', ''f'']\<rparr>,
      \<lparr>item_perms = ''drwxr-xr-x'', item_replicas = ''-'', item_owner = ''u'', item_group = ''g'',
       item_size = 0, item_dt_mod = ''2024-01-01 09:00'', item_path = Path True [''a'']\<rparr>]"

section \<open>Facts about the model of \<^verbatim>\<open>list.sort\<close>\<close>

lemma keys_of_total:
  "(\<And>x. x \<in> set xs \<Longrightarrow> kf x = Inr (g x)) \<Longrightarrow> keys_of kf xs = Inr (map (\<lambda>x. (g x, x)) xs)"
  by (induction xs) auto

lemma keys_of_fails:
  "xs \<noteq> [] \<Longrightarrow> (\<And>x. x \<in> set xs \<Longrightarrow> kf x = Inl e) \<Longrightarrow> keys_of kf xs = Inl e"
  by (cases xs) auto

lemma py_insort_linorder:
  fixes phi :: "'k \<Rightarrow> 'o::linorder"
  assumes "\<And>k k'. k \<in> fst ` set (x # ys) \<Longrightarrow> k' \<in> fst ` set (x # ys) \<Longrightarrow> lt k k' = Inr (phi k < phi k')"
  shows "py_insort lt x ys = Inr (insort_key (\<lambda>p. phi (fst p)) x ys)"
  using assms
proof (induction ys)
  case Nil
  then show ?case by simp
next
  case (Cons y ys)
  have c: "lt (fst y) (fst x) = Inr (phi (fst y) < phi (fst x))"
    by (rule Cons.prems) simp_all
  have ih: "py_insort lt x ys = Inr (insort_key (\<lambda>p. phi (fst p)) x ys)"
    by (rule Cons.IH) (rule Cons.prems, auto)
  show ?case
    by (cases "phi (fst y) < phi (fst x)") (auto simp: c ih)
qed

lemma py_isort_linorder:
  fixes phi :: "'k \<Rightarrow> 'o::linorder"
  assumes "\<And>k k'. k \<in> fst ` set kvs \<Longrightarrow> k' \<in> fst ` set kvs \<Longrightarrow> lt k k' = Inr (phi k < phi k')"
  shows "py_isort lt kvs = Inr (sort_key (\<lambda>p. phi (fst p)) kvs)"
  using assms
proof (induction kvs)
  case Nil
  then show ?case by simp
next
  case (Cons x xs)
  have ih: "py_isort lt xs = Inr (sort_key (\<lambda>p. phi (fst p)) xs)"
    by (rule Cons.IH) (rule Cons.prems, auto)
  have "py_insort lt x (sort_key (\<lambda>p. phi (fst p)) xs)
          = Inr (insort_key (\<lambda>p. phi (fst p)) x (sort_key (\<lambda>p. phi (fst p)) xs))"
    by (rule py_insort_linorder) (rule Cons.prems, auto)
  with ih show ?case by simp
qed

text \<open>
  A stable sort on a pair key whose first component is a truth value sorts the
  elements with \<open>False\<close> and those with \<open>True\<close> separately, the first group in front.
\<close>

lemma sorted_map_const_fst:
  fixes g :: "'a \<Rightarrow> 'o::linorder"
  shows "sorted (map (\<lambda>x. (c::bool, g x)) ys) = sorted (map g ys)"
  by (induction ys) (auto simp: less_eq_prod_def)

lemma sorted_bool_blocks:
  fixes g :: "'a \<Rightarrow> 'o::linorder"
  assumes "\<And>x. x \<in> set A \<Longrightarrow> \<not> b x" and "\<And>x. x \<in> set B \<Longrightarrow> b x"
    and "sorted (map g A)" and "sorted (map g B)"
  shows "sorted (map (\<lambda>x. (b x, g x)) (A @ B))"
proof -
  have a: "map (\<lambda>x. (b x, g x)) A = map (\<lambda>x. (False, g x)) A"
    using assms(1) by (intro map_cong) auto
  have b: "map (\<lambda>x. (b x, g x)) B = map (\<lambda>x. (True, g x)) B"
    using assms(2) by (intro map_cong) auto
  have c: "\<forall>x\<in>set A. \<forall>y\<in>set B. (False, g x) \<le> (True, g y)"
    by (simp add: less_eq_prod_def)
  show ?thesis
    using assms(3,4) c
    by (simp add: a b sorted_append sorted_map_const_fst)
qed

lemma filter_key_split:
  fixes g :: "'a \<Rightarrow> 'o::linorder"
  shows "filter (\<lambda>x. (b k, g k) = (b x, g x)) (sort_key g (filter (\<lambda>x. \<not> b x) xs) @ sort_key g (filter b xs))
      = filter (\<lambda>x. (b k, g k) = (b x, g x)) xs"
proof -
  have A: "filter (\<lambda>x. (b k, g k) = (b x, g x)) (sort_key g (filter c xs))
         = filter (\<lambda>x. b x = b k) (filter (\<lambda>x. g x = g k) (filter c xs))" for c
  proof -
    have "filter (\<lambda>x. (b k, g k) = (b x, g x)) (sort_key g (filter c xs))
        = filter (\<lambda>x. b x = b k) (filter (\<lambda>x. g x = g k) (sort_key g (filter c xs)))"
      by (simp add: conj_commute eq_commute)
    then show ?thesis
      by (simp only: sort_key_stable)
  qed
  show ?thesis
    unfolding filter_append A
    by (induction xs) auto
qed

lemma sort_key_bool_split:
  fixes g :: "'a \<Rightarrow> 'o::linorder"
  shows "sort_key (\<lambda>x. (b x, g x)) xs
           = sort_key g (filter (\<lambda>x. \<not> b x) xs) @ sort_key g (filter b xs)"
proof (rule properties_for_sort_key)
  show "mset (sort_key g (filter (\<lambda>x. \<not> b x) xs) @ sort_key g (filter b xs)) = mset xs"
    by (simp add: union_commute)
next
  fix k
  show "filter (\<lambda>x. (b k, g k) = (b x, g x)) (sort_key g (filter (\<lambda>x. \<not> b x) xs) @ sort_key g (filter b xs))
      = filter (\<lambda>x. (b k, g k) = (b x, g x)) xs"
    by (rule filter_key_split)
next
  show "sorted (map (\<lambda>x. (b x, g x)) (sort_key g (filter (\<lambda>x. \<not> b x) xs) @ sort_key g (filter b xs)))"
    by (rule sorted_bool_blocks) simp_all
qed

lemma tuple_lt_PStr:
  "tuple_lt (b1, PStr s1) (b2, PStr s2) = Inr ((b1, s1) < (b2, s2))"
  by (auto simp: tuple_lt_def less_prod_def)

lemma insort_key_map:
  "insort_key f (m x) (map m ys) = map m (insort_key (\<lambda>z. f (m z)) x ys)"
  by (induction ys) auto

lemma sort_key_map:
  "sort_key f (map m zs) = map m (sort_key (\<lambda>z. f (m z)) zs)"
  by (induction zs) (simp_all add: insort_key_map)

lemma list_sort_PStr:
  assumes "\<And>x. x \<in> set xs \<Longrightarrow> kf x = Inr (b x, PStr (g x))"
  shows "list_sort kf tuple_lt reverse xs =
           (None, if reverse then rev (sort_key (\<lambda>x. (b x, g x)) (rev xs))
                  else sort_key (\<lambda>x. (b x, g x)) xs)"
proof -
  let ?m = "\<lambda>x. ((b x, PStr (g x)), x)"
  let ?phi = "\<lambda>k. (fst k, case snd k of PStr s \<Rightarrow> s | PInt _ \<Rightarrow> [])"
  have k: "keys_of kf xs = Inr (map ?m xs)"
    using assms by (rule keys_of_total)
  have s: "py_isort tuple_lt (map ?m zs) = Inr (map ?m (sort_key (\<lambda>x. (b x, g x)) zs))" for zs
  proof -
    have "py_isort tuple_lt (map ?m zs) = Inr (sort_key (\<lambda>p. ?phi (fst p)) (map ?m zs))"
    proof (rule py_isort_linorder)
      fix k k' assume "k \<in> fst ` set (map ?m zs)" "k' \<in> fst ` set (map ?m zs)"
      then obtain x x' where "k = (b x, PStr (g x))" "k' = (b x', PStr (g x'))"
        by auto
      then show "tuple_lt k k' = Inr (?phi k < ?phi k')"
        by (simp add: tuple_lt_PStr)
    qed
    then show ?thesis
      by (simp add: sort_key_map)
  qed
  show ?thesis
  proof (cases reverse)
    case True
    have "py_isort tuple_lt (rev (map ?m xs)) = Inr (map ?m (sort_key (\<lambda>x. (b x, g x)) (rev xs)))"
      using s [of "rev xs"] by (simp add: rev_map)
    with True k show ?thesis
      by (simp add: list_sort_def rev_map [symmetric] comp_def)
  next
    case False
    with k s [of xs] show ?thesis
      by (simp add: list_sort_def comp_def)
  qed
qed

lemma sort_key_Name:
  "column s = Column_Name \<Longrightarrow>
   FSNode_sort_key s r n = Inr (is_dir n = r, PStr (name_lower n))"
  by (simp add: FSNode_sort_key_def)

lemma name_ascending_sorted: "sorted (map (\<lambda>c. name_lower (h c)) (name_ascending h cs))"
  by (simp add: name_ascending_def)

lemma name_descending_sorted: "sorted (rev (map (\<lambda>c. name_lower (h c)) (name_descending h cs)))"
  by (simp add: name_descending_def rev_map)

lemma name_ascending_mset: "mset (name_ascending h cs) = mset cs"
  by (simp add: name_ascending_def)

lemma name_descending_mset: "mset (name_descending h cs) = mset cs"
  by (simp add: name_descending_def)

section \<open>The example store\<close>

lemma lower_examples:
  "lower ''A.txt'' = ''a.txt''" "lower ''b.txt'' = ''b.txt''" "lower ''docs'' = ''docs''" "lower ''bin'' = ''bin''"
  by code_simp+

lemma listing_nodes:
  "is_dir (listing (Suc 0)) = False" "is_dir (listing 2) = True" "is_dir (listing 3) = False" "is_dir (listing 4) = True"
  "name_lower (listing (Suc 0)) = ''b.txt''" "name_lower (listing 2) = ''docs''"
  "name_lower (listing 3) = ''a.txt''" "name_lower (listing 4) = ''bin''"
  "visible_children (listing 0) = [1, 2, 3, 4]"
  "current_sort_state (listing 0) = None"
  "size' (listing (Suc 0)) = 7" "size' (listing 3) = 9"
  "fetched_items (listing 0) = 10000" "BATCH (listing 0) = 10000"
  by (simp_all add: listing_def no_nodes_def append_child_def FSNode_init_def path_name_def lower_examples)

lemma listing_sorted_descending:
  "FSNode_sort listing 0 \<lparr>column = Column_Name, order = DescendingOrder\<rparr>
     = (None, listing(0 := (listing 0)\<lparr>visible_children := [2, 4, 1, 3],
           current_sort_state := Some \<lparr>column = Column_Name, order = DescendingOrder\<rparr>\<rparr>))"
  by (simp add: FSNode_sort_def list_sort_def FSNode_sort_key_def tuple_lt_def listing_nodes)

section \<open>Sorts whose comparisons never raise\<close>

lemma sort_key_Size:
  "column s = Column_Size \<Longrightarrow>
   FSNode_sort_key s r n =
     Inr (is_dir n = r, if is_dir n then PStr (name_lower n) else PInt (size' n))"
  by (simp add: FSNode_sort_key_def Column_Name_def Column_Size_def)

lemma tuple_lt_Size:
  "tuple_lt (is_dir n = r, if is_dir n then PStr (name_lower n) else PInt (size' n))
            (is_dir m = r, if is_dir m then PStr (name_lower m) else PInt (size' m))
     = Inr (if is_dir n \<noteq> is_dir m then (is_dir n = r) < (is_dir m = r)
            else if is_dir n then name_lower n < name_lower m
            else size' n < size' m)"
  by (auto simp: tuple_lt_def)

lemma py_insort_total:
  assumes "\<And>k k'. k \<in> fst ` set (x # ys) \<Longrightarrow> k' \<in> fst ` set (x # ys) \<Longrightarrow> \<exists>b. lt k k' = Inr b"
  shows "\<exists>zs. py_insort lt x ys = Inr zs \<and> mset zs = mset (x # ys)"
  using assms
proof (induction ys)
  case Nil
  then show ?case by simp
next
  case (Cons y ys)
  obtain b where c: "lt (fst y) (fst x) = Inr b"
    using Cons.prems [of "fst y" "fst x"] by auto
  have "\<exists>zs. py_insort lt x ys = Inr zs \<and> mset zs = mset (x # ys)"
    by (rule Cons.IH) (rule Cons.prems, auto)
  then obtain zs where ih: "py_insort lt x ys = Inr zs" "mset zs = mset (x # ys)"
    by blast
  show ?case
    by (cases b) (simp_all add: c ih)
qed

lemma py_isort_total:
  assumes "\<And>k k'. k \<in> fst ` set kvs \<Longrightarrow> k' \<in> fst ` set kvs \<Longrightarrow> \<exists>b. lt k k' = Inr b"
  shows "\<exists>zs. py_isort lt kvs = Inr zs \<and> mset zs = mset kvs"
  using assms
proof (induction kvs)
  case Nil
  then show ?case by simp
next
  case (Cons x xs)
  have "\<exists>zs. py_isort lt xs = Inr zs \<and> mset zs = mset xs"
    by (rule Cons.IH) (rule Cons.prems, auto)
  then obtain ys where ih: "py_isort lt xs = Inr ys" "mset ys = mset xs"
    by blast
  have s: "set ys = set xs"
    using ih(2) by (rule mset_eq_setD)
  have "\<exists>zs. py_insort lt x ys = Inr zs \<and> mset zs = mset (x # ys)"
    by (rule py_insort_total) (rule Cons.prems, auto simp: s)
  with ih show ?case by auto
qed

lemma list_sort_total:
  assumes "\<And>x. x \<in> set xs \<Longrightarrow> kf x = Inr (g x)"
    and "\<And>x y. x \<in> set xs \<Longrightarrow> y \<in> set xs \<Longrightarrow> \<exists>b. lt (g x) (g y) = Inr b"
  shows "\<exists>ys. list_sort kf lt reverse xs = (None, ys) \<and> mset ys = mset xs"
proof -
  let ?kvs = "map (\<lambda>x. (g x, x)) xs"
  let ?in = "if reverse then rev ?kvs else ?kvs"
  have k: "keys_of kf xs = Inr ?kvs"
    using assms(1) by (rule keys_of_total)
  have "\<exists>zs. py_isort lt ?in = Inr zs \<and> mset zs = mset ?in"
  proof (rule py_isort_total)
    fix k k' assume "k \<in> fst ` set ?in" "k' \<in> fst ` set ?in"
    then obtain x y where "x \<in> set xs" "y \<in> set xs" "k = g x" "k' = g y"
      by (auto split: if_splits)
    then show "\<exists>b. lt k k' = Inr b"
      using assms(2) by simp
  qed
  then obtain zs where z: "py_isort lt ?in = Inr zs" "mset zs = mset ?in"
    by blast
  have "mset (map snd zs) = mset xs"
  proof -
    have "mset (map snd zs) = image_mset snd (mset zs)"
      by simp
    also have "\<dots> = image_mset snd (mset ?in)"
      by (simp only: z(2))
    also have "\<dots> = mset xs"
      by (simp add: multiset.map_comp comp_def)
    finally show ?thesis .
  qed
  then have "mset (map snd (if reverse then rev zs else zs)) = mset xs"
    by (cases reverse) simp_all
  then show ?thesis
    using k z(1) by (simp add: list_sort_def)
qed

section \<open>An unknown column on a node with visible children\<close>

text \<open>
  When the node has at least one visible child and is not marked as sorted with the
  requested specification, an unknown column raises \<^verbatim>\<open>ValueError\<close> from the first call
  of the key function, before the list or the sort state is touched.
\<close>

lemma FSNode_sort_unknown_column:
  assumes "column s \<notin> {Column_Name, Column_Size, Column_Modified, Column_Permissions, Column_Owner}"
    and "visible_children (h a) \<noteq> []"
    and "current_sort_state (h a) \<noteq> Some s"
  shows "FSNode_sort h a s = (Some ValueError, h)"
proof -
  have "keys_of (\<lambda>c. FSNode_sort_key s (order s = DescendingOrder) (h c)) (visible_children (h a))
          = Inl ValueError"
    using assms(2)
  proof (rule keys_of_fails)
    fix x show "FSNode_sort_key s (order s = DescendingOrder) (h x) = Inl ValueError"
      using assms(1) by (simp add: FSNode_sort_key_def)
  qed
  then show ?thesis
    using assms(3) by (simp add: FSNode_sort_def list_sort_def)
qed

section \<open>Facts about \<^verbatim>\<open>apply_filter\<close>\<close>

lemma filtered_on_static [simp]:
  "all_children (filtered_on p h S x) = all_children (h x)"
  "is_dir (filtered_on p h S x) = is_dir (h x)"
  "name_lower (filtered_on p h S x) = name_lower (h x)"
  "fetched_items (filtered_on p h S x) = fetched_items (h x)"
  "current_sort_state (filtered_on p h S x) = current_sort_state (h x)"
  by (simp_all add: filtered_on_def)

lemma filtered_on_visible:
  "visible_children (filtered_on p h S x)
     = (if x \<in> S then visible_by_rule h p x else visible_children (h x))"
  by (simp add: filtered_on_def)

lemma visible_by_rule_filtered_on [simp]:
  "visible_by_rule (filtered_on p h S) q x = visible_by_rule h q x"
  by (simp add: visible_by_rule_def)

lemma within_depth_filtered_on [simp]:
  "within_depth (filtered_on p h S) d a = within_depth h d a"
  by (induction d arbitrary: a) (simp_all add: list_all_iff)

lemma visited_mono_static:
  assumes "\<And>x. all_children (h' x) = all_children (h x)" and "\<And>x. is_dir (h' x) = is_dir (h x)"
  shows "x \<in> visited h a \<Longrightarrow> x \<in> visited h' a"
proof (induction rule: visited.induct)
  case visited_root
  show ?case by (rule visited.visited_root)
next
  case (visited_child b c)
  from visited_child.IH show ?case
  proof (rule visited.visited_child)
    show "c \<in> set (all_children (h' b))"
      using visited_child.hyps(2) by (simp only: assms)
    show "is_dir (h' c)"
      using visited_child.hyps(3) by (simp only: assms)
  qed
qed

lemma visited_filtered_on [simp]: "visited (filtered_on p h S) a = visited h a"
proof (intro set_eqI iffI)
  fix x assume "x \<in> visited (filtered_on p h S) a"
  then show "x \<in> visited h a"
    by (rule visited_mono_static [rotated 2]) simp_all
next
  fix x assume "x \<in> visited h a"
  then show "x \<in> visited (filtered_on p h S) a"
    by (rule visited_mono_static [rotated 2]) simp_all
qed

lemma filtered_on_twice:
  "filtered_on p (filtered_on p h S) T = filtered_on p h (S \<union> T)"
  by (rule ext) (simp add: filtered_on_def visible_by_rule_def)

lemma visited_trans:
  "x \<in> visited h c \<Longrightarrow> c \<in> visited h a \<Longrightarrow> x \<in> visited h a"
proof (induction rule: visited.induct)
  case visited_root
  then show ?case .
next
  case (visited_child b e)
  have "b \<in> visited h a" by (rule visited_child.IH) (rule visited_child.prems)
  then show ?case using visited_child.hyps(2,3) by (rule visited.visited_child)
qed

lemma visited_unfold:
  "visited h a = {a} \<union> (\<Union>c\<in>{c \<in> set (all_children (h a)). is_dir (h c)}. visited h c)"
proof (intro set_eqI iffI)
  fix x assume "x \<in> visited h a"
  then show "x \<in> {a} \<union> (\<Union>c\<in>{c \<in> set (all_children (h a)). is_dir (h c)}. visited h c)"
  proof (induction rule: visited.induct)
    case visited_root
    show ?case by simp
  next
    case (visited_child b c)
    show ?case
    proof (cases "b = a")
      case True
      with visited_child.hyps have "c \<in> {c \<in> set (all_children (h a)). is_dir (h c)}" by simp
      moreover have "c \<in> visited h c" by (rule visited.visited_root)
      ultimately show ?thesis by blast
    next
      case False
      with visited_child.IH obtain c0 where
        c0: "c0 \<in> {c \<in> set (all_children (h a)). is_dir (h c)}" "b \<in> visited h c0"
        by blast
      from c0(2) visited_child.hyps(2,3) have "c \<in> visited h c0"
        by (rule visited.visited_child)
      with c0(1) show ?thesis by blast
    qed
  qed
next
  fix x assume "x \<in> {a} \<union> (\<Union>c\<in>{c \<in> set (all_children (h a)). is_dir (h c)}. visited h c)"
  then consider "x = a" | c where "c \<in> set (all_children (h a))" "is_dir (h c)" "x \<in> visited h c"
    by blast
  then show "x \<in> visited h a"
  proof cases
    case 1
    then show ?thesis by (simp add: visited.visited_root)
  next
    case 2
    have "c \<in> visited h a"
      using visited.visited_root 2(1,2) by (rule visited.visited_child)
    with 2(3) show ?thesis by (rule visited_trans)
  qed
qed

lemma first_step:
  "h(a := (h a)\<lparr> visible_children :=
        (if p = [] then all_children (h a)
         else filter (\<lambda>child. sublist p (name_lower (h child)) \<or> is_dir (h child))
                (all_children (h a))) \<rparr>)
     = filtered_on p h {a}"
proof -
  have "(\<lambda>child. sublist p (name_lower (h child)) \<or> is_dir (h child))
      = (\<lambda>c. is_dir (h c) \<or> sublist p (name_lower (h c)))"
    by (rule ext) (rule disj_commute)
  then show ?thesis
    by (intro ext) (simp add: filtered_on_def visible_by_rule_def)
qed

lemma loop_None:
  "fold (\<lambda>child r. case r of None \<Rightarrow> None
          | Some h2 \<Rightarrow> if is_dir (h2 child) then f h2 child else Some h2) cs None = None"
  by (induction cs) simp_all

lemma loop_filtered:
  assumes IH: "\<And>h a. apply_filter d h a p
                 = (if within_depth h d a then Some (filtered_on p h (visited h a)) else None)"
  shows "fold (\<lambda>child r. case r of None \<Rightarrow> None
            | Some h2 \<Rightarrow> if is_dir (h2 child) then apply_filter d h2 child p else Some h2)
           cs (Some (filtered_on p h S))
       = (if list_all (\<lambda>c. \<not> is_dir (h c) \<or> within_depth h d c) cs
          then Some (filtered_on p h (S \<union> (\<Union>c\<in>{c \<in> set cs. is_dir (h c)}. visited h c)))
          else None)"
proof (induction cs arbitrary: S)
  case Nil
  show ?case by simp
next
  case (Cons c cs)
  show ?case
  proof (cases "is_dir (h c)")
    case False
    have "{x \<in> set (c # cs). is_dir (h x)} = {x \<in> set cs. is_dir (h x)}"
      using False by auto
    with False show ?thesis
      by (simp add: Cons.IH)
  next
    case dir: True
    show ?thesis
    proof (cases "within_depth h d c")
      case False
      with dir show ?thesis
        by (simp add: IH loop_None)
    next
      case True
      have u: "S \<union> visited h c \<union> (\<Union>x\<in>{x \<in> set cs. is_dir (h x)}. visited h x)
             = S \<union> (\<Union>x\<in>{x \<in> set (c # cs). is_dir (h x)}. visited h x)"
        using dir by auto
      from dir True show ?thesis
        by (simp add: IH filtered_on_twice Cons.IH u del: Un_insert_left Un_insert_right)
    qed
  qed
qed

text \<open>
  What a call computes: it returns exactly when the directories below the node are
  nested less deep than the bound, and then the nodes it has reached have their
  visible children by the rule and every other node is untouched.
\<close>

lemma apply_filter_eq:
  "apply_filter d h a p
     = (if within_depth h d a then Some (filtered_on p h (visited h a)) else None)"
proof (induction d arbitrary: h a)
  case 0
  show ?case by simp
next
  case (Suc d)
  have "apply_filter (Suc d) h a p
      = fold (\<lambda>child r. case r of None \<Rightarrow> None
            | Some h2 \<Rightarrow> if is_dir (h2 child) then apply_filter d h2 child p else Some h2)
          (all_children (h a)) (Some (filtered_on p h {a}))"
    by (simp add: first_step Let_def del: fun_upd_apply)
  also have "\<dots> = (if list_all (\<lambda>c. \<not> is_dir (h c) \<or> within_depth h d c) (all_children (h a))
          then Some (filtered_on p h ({a} \<union> (\<Union>c\<in>{c \<in> set (all_children (h a)). is_dir (h c)}. visited h c)))
          else None)"
    by (rule loop_filtered) (rule Suc.IH)
  also have "\<dots> = (if within_depth h (Suc d) a then Some (filtered_on p h (visited h a)) else None)"
    by (simp only: visited_unfold [symmetric] within_depth.simps)
  finally show ?case .
qed

section \<open>The example with a file that has a child\<close>

lemma lower_examples2:
  "lower ''x'' = ''x''" "lower ''zzz'' = ''zzz''" "lower ''d'' = ''d''"
  by code_simp+

lemma file_with_child_nodes:
  "all_children (file_with_child 0) = [2, 4]"
  "all_children (file_with_child 2) = [3]"
  "all_children (file_with_child 3) = []"
  "all_children (file_with_child 4) = []"
  "visible_children (file_with_child 0) = [2, 4]"
  "visible_children (file_with_child 2) = [3]"
  "is_dir (file_with_child 0) = True"
  "is_dir (file_with_child 2) = False"
  "is_dir (file_with_child 3) = False"
  "is_dir (file_with_child 4) = True"
  "name_lower (file_with_child 2) = ''x''"
  "name_lower (file_with_child 3) = ''zzz''"
  "name_lower (file_with_child 4) = ''d''"
  "fetched_items (file_with_child 0) = 10000"
  by (simp_all add: file_with_child_def no_nodes_def append_child_def FSNode_init_def path_name_def
        lower_examples2)

lemma apply_filter_numeral:
  "apply_filter (numeral k) h a p = apply_filter (Suc (pred_numeral k)) h a p"
  by (simp only: numeral_eq_Suc)

lemma within_depth_numeral:
  "within_depth h (numeral k) a = within_depth h (Suc (pred_numeral k)) a"
  by (simp only: numeral_eq_Suc)

lemma file_with_child_depth: "within_depth file_with_child 2 0"
  by (simp add: within_depth_numeral file_with_child_nodes)

lemma file_with_child_filtered:
  "apply_filter 2 file_with_child 0 ''q''
     = Some (file_with_child(0 := (file_with_child 0)\<lparr>visible_children := [4]\<rparr>,
                             4 := (file_with_child 4)\<lparr>visible_children := []\<rparr>))"
  by (simp add: apply_filter_numeral file_with_child_nodes sublist_Cons_right)

lemma file_with_child_visited: "visited file_with_child 0 = {0, 4}"
proof -
  have a: "{c \<in> set (all_children (file_with_child 0)). is_dir (file_with_child c)} = {4}"
    by (auto simp: file_with_child_nodes)
  have b: "{c \<in> set (all_children (file_with_child 4)). is_dir (file_with_child c)} = {}"
    by (simp add: file_with_child_nodes)
  have "visited file_with_child 4 = {4}"
    by (subst visited_unfold) (simp only: b, simp)
  then show ?thesis
    by (subst visited_unfold) (simp only: a, auto)
qed

section \<open>Facts about the row interface\<close>

lemma canFetchMore_less:
  "canFetchMore h idx \<Longrightarrow>
     fetched_items (h (p_item r idx)) < int (length (visible_children (h (p_item r idx))))"
  by (cases idx) (simp_all add: canFetchMore_def p_item_def)

lemma big_directory_node:
  "fetched_items (big_directory 0) = 10000" "BATCH (big_directory 0) = 10000"
  "length (visible_children (big_directory 0)) = 12001"
  by (simp_all add: big_directory_def FSNode_init_def)

section \<open>The tree builder on the two-line example\<close>

lemmas loader_defs = load_hdfs_file_def file_then_dir_def load_item_def path_parents_def
  resolve_parent_def next_with_path_def append_child_def

lemma file_then_dir_loaded:
  "\<not> isl (load_hdfs_file None no_nodes 0 file_then_dir)"
  "free (fst (projr (load_hdfs_file None no_nodes 0 file_then_dir))) = 4"
  "snd (projr (load_hdfs_file None no_nodes 0 file_then_dir)) = 0"
  by (simp_all add: loader_defs)

lemma file_then_dir_children:
  "all_children (store (fst (projr (load_hdfs_file None no_nodes 0 file_then_dir))) 0) = [1, 3]"
  by (simp add: loader_defs FSNode_init_def)

lemma file_then_dir_paths:
  "node_paths (fst (projr (load_hdfs_file None no_nodes 0 file_then_dir)))
     = [Path False [], Path True [''a''], Path True [''a'', ''f''], Path True [''a'']]"
  by (simp add: node_paths_def loader_defs FSNode_init_def upt_rec)

section \<open>Appending a child\<close>

text \<open>
  C9. Every \<^verbatim>\<open>append_child\<close> call resets the sort state of the node it is called on
  to none, whatever the node, the child and the previous sort state are; the child is
  added at the end of both child lists.
\<close>

theorem append_child_resets_sort_state:
  "current_sort_state (append_child h a child a) = None
   \<and> all_children (append_child h a child a) = all_children (h a) @ [child]
   \<and> visible_children (append_child h a child a) = visible_children (h a) @ [child]"
  by (simp add: append_child_def)

section \<open>Sorting by name\<close>

text \<open>
  C1 (as amended). Sorting a node by Name, when the node is not already marked as
  sorted that way, succeeds and leaves the directories in front of the files in both
  directions. Ascending, each of the two groups is in ascending order of the
  lower-cased name; descending, each group is in descending order of the lower-cased
  name. Children with equal lower-cased names keep the order they had. The node's
  sort state becomes the requested one.
\<close>

theorem sort_by_name:
  assumes "current_sort_state (h a) \<noteq> Some s" and "column s = Column_Name"
  shows "FSNode_sort h a s =
     (None, h(a := (h a)\<lparr> visible_children :=
                (if order s = DescendingOrder
                 then name_descending h (subdirs h (visible_children (h a)))
                      @ name_descending h (files h (visible_children (h a)))
                 else name_ascending h (subdirs h (visible_children (h a)))
                      @ name_ascending h (files h (visible_children (h a)))),
              current_sort_state := Some s \<rparr>))"
proof -
  let ?vs = "visible_children (h a)"
  let ?r = "order s = DescendingOrder"
  have ls: "list_sort (\<lambda>c. FSNode_sort_key s ?r (h c)) tuple_lt ?r ?vs =
      (None, if ?r then rev (sort_key (\<lambda>c. (is_dir (h c) = ?r, name_lower (h c))) (rev ?vs))
             else sort_key (\<lambda>c. (is_dir (h c) = ?r, name_lower (h c))) ?vs)"
    by (rule list_sort_PStr) (simp add: sort_key_Name assms)
  show ?thesis
  proof (cases ?r)
    case True
    have "rev (sort_key (\<lambda>c. (is_dir (h c), name_lower (h c))) (rev ?vs))
        = name_descending h (subdirs h ?vs) @ name_descending h (files h ?vs)"
      by (simp add: sort_key_bool_split name_descending_def subdirs_def files_def rev_filter)
    with True ls assms show ?thesis
      by (simp add: FSNode_sort_def)
  next
    case False
    have "sort_key (\<lambda>c. (\<not> is_dir (h c), name_lower (h c))) ?vs
        = name_ascending h (subdirs h ?vs) @ name_ascending h (files h ?vs)"
      by (simp add: sort_key_bool_split name_ascending_def subdirs_def files_def)
    with False ls assms show ?thesis
      by (simp add: FSNode_sort_def)
  qed
qed

text \<open>
  The theorem at the example store, in both directions: the directories \<^verbatim>\<open>docs\<close> (2)
  and \<^verbatim>\<open>bin\<close> (4) stay in front of the files \<^verbatim>\<open>b.txt\<close> (1) and \<^verbatim>\<open>A.txt\<close> (3).
\<close>

theorem sort_by_name_witness:
  "current_sort_state (listing 0) \<noteq> Some \<lparr>column = Column_Name, order = DescendingOrder\<rparr>
   \<and> column \<lparr>column = Column_Name, order = DescendingOrder\<rparr> = Column_Name
   \<and> FSNode_sort listing 0 \<lparr>column = Column_Name, order = DescendingOrder\<rparr>
     = (None, listing(0 := (listing 0)\<lparr>visible_children := [2, 4, 1, 3],
           current_sort_state := Some \<lparr>column = Column_Name, order = DescendingOrder\<rparr>\<rparr>))
   \<and> FSNode_sort listing 0 \<lparr>column = Column_Name, order = AscendingOrder\<rparr>
     = (None, listing(0 := (listing 0)\<lparr>visible_children := [4, 2, 3, 1],
           current_sort_state := Some \<lparr>column = Column_Name, order = AscendingOrder\<rparr>\<rparr>))"
  using sort_by_name [of listing 0 "\<lparr>column = Column_Name, order = DescendingOrder\<rparr>"]
        sort_by_name [of listing 0 "\<lparr>column = Column_Name, order = AscendingOrder\<rparr>"]
  by (simp add: listing_nodes subdirs_def files_def name_descending_def name_ascending_def)

text \<open>
  The claim as written has the descending sort put the directories last. In the
  example store the descending sort returns \<^verbatim>\<open>docs\<close>, \<^verbatim>\<open>bin\<close>, \<^verbatim>\<open>b.txt\<close>, \<^verbatim>\<open>A.txt\<close>:
  the directories are not a block behind the files, they are in front. (The key of a
  directory is \<open>(True, name)\<close> when \<^verbatim>\<open>reverse\<close> is set, and the reversed sort puts the
  larger keys first.)
\<close>

theorem sort_by_name_descending_counterexample:
  "visible_children (snd (FSNode_sort listing 0 \<lparr>column = Column_Name, order = DescendingOrder\<rparr>) 0)
     = [2, 4, 1, 3]
   \<and> \<not> folders_last (snd (FSNode_sort listing 0 \<lparr>column = Column_Name, order = DescendingOrder\<rparr>))
         (visible_children (snd (FSNode_sort listing 0 \<lparr>column = Column_Name, order = DescendingOrder\<rparr>) 0))
   \<and> folders_first (snd (FSNode_sort listing 0 \<lparr>column = Column_Name, order = DescendingOrder\<rparr>))
         (visible_children (snd (FSNode_sort listing 0 \<lparr>column = Column_Name, order = DescendingOrder\<rparr>) 0))"
  by (simp add: listing_sorted_descending folders_last_def folders_first_def files_def subdirs_def listing_nodes)

section \<open>Sorting by size\<close>

text \<open>
  C10. Sorting by Size always completes without an error, for every store, node and
  direction, and returns a rearrangement of the visible children. For any two nodes
  the key function returns a pair whose first component tells directories from files,
  with the lower-cased name as second component for a directory and the size for a
  file; comparing two such keys never raises: two nodes of different kinds are
  decided by the first component alone, two directories by their names, two files by
  their sizes, so a name is never compared with a size.
\<close>

theorem sort_by_size_total:
  assumes "column s = Column_Size"
  shows "fst (FSNode_sort h a s) = None
    \<and> mset (visible_children (snd (FSNode_sort h a s) a)) = mset (visible_children (h a))
    \<and> FSNode_sort_key s r n =
          Inr (is_dir n = r, if is_dir n then PStr (name_lower n) else PInt (size' n))
    \<and> tuple_lt (is_dir n = r, if is_dir n then PStr (name_lower n) else PInt (size' n))
                (is_dir m = r, if is_dir m then PStr (name_lower m) else PInt (size' m))
        = Inr (if is_dir n \<noteq> is_dir m then (is_dir n = r) < (is_dir m = r)
               else if is_dir n then name_lower n < name_lower m
               else size' n < size' m)"
proof -
  let ?r = "order s = DescendingOrder"
  let ?g = "\<lambda>c. (is_dir (h c) = ?r,
                 if is_dir (h c) then PStr (name_lower (h c)) else PInt (size' (h c)))"
  have "\<exists>ys. list_sort (\<lambda>c. FSNode_sort_key s ?r (h c)) tuple_lt ?r (visible_children (h a))
              = (None, ys) \<and> mset ys = mset (visible_children (h a))"
  proof (rule list_sort_total [where g = ?g])
    fix x show "FSNode_sort_key s ?r (h x) = Inr (?g x)"
      using assms by (rule sort_key_Size)
  next
    fix x y show "\<exists>b. tuple_lt (?g x) (?g y) = Inr b"
      by (simp only: tuple_lt_Size) blast
  qed
  then obtain ys where ys:
    "list_sort (\<lambda>c. FSNode_sort_key s ?r (h c)) tuple_lt ?r (visible_children (h a)) = (None, ys)"
    "mset ys = mset (visible_children (h a))"
    by blast
  have "fst (FSNode_sort h a s) = None
      \<and> mset (visible_children (snd (FSNode_sort h a s) a)) = mset (visible_children (h a))"
    using ys by (simp add: FSNode_sort_def)
  then show ?thesis
    using assms by (simp add: sort_key_Size tuple_lt_Size)
qed

text \<open>
  The theorem at the example store, ascending, for the file \<^verbatim>\<open>b.txt\<close> of size 7 and the
  directory \<^verbatim>\<open>docs\<close>.
\<close>

theorem sort_by_size_total_witness:
  "column \<lparr>column = Column_Size, order = AscendingOrder\<rparr> = Column_Size
   \<and> fst (FSNode_sort listing 0 \<lparr>column = Column_Size, order = AscendingOrder\<rparr>) = None
   \<and> FSNode_sort_key \<lparr>column = Column_Size, order = AscendingOrder\<rparr> False (listing 1)
        = Inr (True, PInt 7)
   \<and> FSNode_sort_key \<lparr>column = Column_Size, order = AscendingOrder\<rparr> False (listing 2)
        = Inr (False, PStr ''docs'')
   \<and> tuple_lt (True, PInt 7) (False, PStr ''docs'') = Inr False"
  using sort_by_size_total [of "\<lparr>column = Column_Size, order = AscendingOrder\<rparr>" listing 0
          False "listing 1" "listing 2"]
    sort_by_size_total [of "\<lparr>column = Column_Size, order = AscendingOrder\<rparr>" listing 0
          False "listing 2" "listing 1"]
  by (simp add: listing_nodes)

section \<open>Sorting twice\<close>

text \<open>
  C6. When a call of \<^verbatim>\<open>sort\<close> on a node returns, the node is marked as sorted with the
  requested specification, and a second call with the same specification on the
  resulting store takes the early return: it returns without an error and leaves the
  whole store, and so the order of the visible children, as the first call left it.
\<close>

theorem sort_twice:
  assumes "FSNode_sort h a s = (None, h')"
  shows "current_sort_state (h' a) = Some s \<and> FSNode_sort h' a s = (None, h')"
proof (cases "current_sort_state (h a) = Some s")
  case True
  with assms have "h' = h" by (simp add: FSNode_sort_def)
  with True show ?thesis by (simp add: FSNode_sort_def)
next
  case False
  with assms have "current_sort_state (h' a) = Some s"
    by (auto simp: FSNode_sort_def Let_def split: prod.splits option.splits)
  then show ?thesis by (simp add: FSNode_sort_def)
qed

text \<open>The theorem at the example store, sorted by name, descending.\<close>

theorem sort_twice_witness:
  "FSNode_sort listing 0 \<lparr>column = Column_Name, order = DescendingOrder\<rparr>
     = (None, listing(0 := (listing 0)\<lparr>visible_children := [2, 4, 1, 3],
           current_sort_state := Some \<lparr>column = Column_Name, order = DescendingOrder\<rparr>\<rparr>))
   \<and> FSNode_sort
        (listing(0 := (listing 0)\<lparr>visible_children := [2, 4, 1, 3],
           current_sort_state := Some \<lparr>column = Column_Name, order = DescendingOrder\<rparr>\<rparr>))
        0 \<lparr>column = Column_Name, order = DescendingOrder\<rparr>
     = (None, listing(0 := (listing 0)\<lparr>visible_children := [2, 4, 1, 3],
           current_sort_state := Some \<lparr>column = Column_Name, order = DescendingOrder\<rparr>\<rparr>))"
  using sort_twice [OF listing_sorted_descending] listing_sorted_descending
  by simp

section \<open>An unknown column on a node without visible children\<close>

text \<open>
  C5. The claim asks every call of \<^verbatim>\<open>sort\<close> with an unknown column to fail. The check
  for the column sits in the key function, which \<^verbatim>\<open>list.sort\<close> only calls for the elements
  of the list: on a node without visible children, here a freshly created node, the
  call with column 7 returns without an error and records the unknown specification
  as the node's sort state.
\<close>

theorem sort_unknown_column_on_empty_node:
  "FSNode_sort no_nodes 0 \<lparr>column = 7, order = AscendingOrder\<rparr>
     = (None, no_nodes(0 := (no_nodes 0)\<lparr>visible_children := [],
           current_sort_state := Some \<lparr>column = 7, order = AscendingOrder\<rparr>\<rparr>))
   \<and> 7 \<notin> {Column_Name, Column_Size, Column_Modified, Column_Permissions, Column_Owner}"
  by (simp add: FSNode_sort_def list_sort_def no_nodes_def FSNode_init_def
        Column_Name_def Column_Size_def Column_Modified_def Column_Permissions_def Column_Owner_def)

section \<open>What a filter application computes\<close>

text \<open>
  C4 (as amended). When the directories below the root are nested less deep than the
  recursion bound, \<^verbatim>\<open>apply_filter\<close> returns, and afterwards: the root and every node
  reached from it through directory children (visible or not, the recursion enters
  every directory child of a node it reaches) have as visible children all their
  children when the pattern is empty, and otherwise exactly their children that are
  directories or whose lower-cased name contains the pattern, in the order of
  \<^verbatim>\<open>all_children\<close>; every other node, in particular a node below a child that is not a
  directory, is left as it was; and no node's children, kind or name changes.
\<close>

theorem apply_filter_rule:
  assumes "within_depth h d root"
  shows "\<exists>h'. apply_filter d h root pattern = Some h'
     \<and> (\<forall>x\<in>visited h root. visible_children (h' x) = visible_by_rule h' pattern x)
     \<and> (\<forall>x\<in>visited h root. \<forall>c\<in>set (all_children (h x)). is_dir (h c) \<longrightarrow> c \<in> visited h root)
     \<and> (\<forall>x. x \<notin> visited h root \<longrightarrow> h' x = h x)
     \<and> (\<forall>x. all_children (h' x) = all_children (h x) \<and> is_dir (h' x) = is_dir (h x)
              \<and> name_lower (h' x) = name_lower (h x))"
proof (intro exI conjI)
  show "apply_filter d h root pattern = Some (filtered_on pattern h (visited h root))"
    using assms by (simp add: apply_filter_eq)
  show "\<forall>x\<in>visited h root. visible_children (filtered_on pattern h (visited h root) x)
          = visible_by_rule (filtered_on pattern h (visited h root)) pattern x"
    by (simp add: filtered_on_visible)
  show "\<forall>x\<in>visited h root. \<forall>c\<in>set (all_children (h x)). is_dir (h c) \<longrightarrow> c \<in> visited h root"
    by (blast intro: visited.visited_child)
  show "\<forall>x. x \<notin> visited h root \<longrightarrow> filtered_on pattern h (visited h root) x = h x"
    by (simp add: filtered_on_def)
  show "\<forall>x. all_children (filtered_on pattern h (visited h root) x) = all_children (h x)
           \<and> is_dir (filtered_on pattern h (visited h root) x) = is_dir (h x)
           \<and> name_lower (filtered_on pattern h (visited h root) x) = name_lower (h x)"
    by simp
qed

text \<open>
  The theorem at the example with the pattern \<^verbatim>\<open>q\<close>: the call returns, the root keeps
  the directory \<^verbatim>\<open>/d\<close> (4) and hides the file \<^verbatim>\<open>/x\<close> (2), and the node \<^verbatim>\<open>/x/zzz\<close> (3),
  which is not reached, is unchanged.
\<close>

theorem apply_filter_rule_witness:
  "within_depth file_with_child 2 0
   \<and> apply_filter 2 file_with_child 0 ''q'' \<noteq> None
   \<and> visible_children (the (apply_filter 2 file_with_child 0 ''q'') 0) = [4]
   \<and> the (apply_filter 2 file_with_child 0 ''q'') 3 = file_with_child 3"
proof -
  from apply_filter_rule [OF file_with_child_depth, of "''q''"] obtain h' where
    h': "apply_filter 2 file_with_child 0 ''q'' = Some h'"
    and vis: "\<forall>x\<in>visited file_with_child 0. visible_children (h' x) = visible_by_rule h' ''q'' x"
    and rest: "\<forall>x. x \<notin> visited file_with_child 0 \<longrightarrow> h' x = file_with_child x"
    and static: "\<forall>x. all_children (h' x) = all_children (file_with_child x)
              \<and> is_dir (h' x) = is_dir (file_with_child x)
              \<and> name_lower (h' x) = name_lower (file_with_child x)"
    by blast
  have "visible_children (h' 0) = visible_by_rule h' ''q'' 0"
    using vis by (simp add: file_with_child_visited)
  also have "\<dots> = [4]"
    by (simp add: visible_by_rule_def static file_with_child_nodes sublist_Cons_right)
  finally have "visible_children (h' 0) = [4]" .
  moreover have "h' 3 = file_with_child 3"
    using rest by (simp add: file_with_child_visited)
  ultimately show ?thesis
    using h' file_with_child_depth by simp
qed

text \<open>
  The claim as written speaks of every node. In the example the file \<^verbatim>\<open>/x\<close> (2) is a
  child of the root and has the child \<^verbatim>\<open>/x/zzz\<close> (3). The loop skips \<^verbatim>\<open>/x\<close>
  because it is not a directory, so after the call with the pattern \<^verbatim>\<open>q\<close> its visible
  children are still \<^verbatim>\<open>/x/zzz\<close>, where the rule gives the empty list.
\<close>

theorem apply_filter_skips_children_of_files:
  "apply_filter 2 file_with_child 0 ''q'' \<noteq> None
   \<and> 2 \<in> set (all_children (the (apply_filter 2 file_with_child 0 ''q'') 0))
   \<and> visible_children (the (apply_filter 2 file_with_child 0 ''q'') 2) = [3]
   \<and> visible_by_rule (the (apply_filter 2 file_with_child 0 ''q'')) ''q'' 2 = []"
  by (simp add: file_with_child_filtered visible_by_rule_def file_with_child_nodes sublist_Cons_right)

section \<open>Filtering twice\<close>

text \<open>
  C7. Applying the same filter a second time changes nothing: when \<^verbatim>\<open>apply_filter\<close>
  returns the store \<open>h'\<close>, the same call on \<open>h'\<close> returns, and returns \<open>h'\<close> again, so
  every node has the visible children it had after the first application.
\<close>

theorem apply_filter_idempotent:
  assumes "apply_filter d h root pattern = Some h'"
  shows "apply_filter d h' root pattern = Some h'"
proof -
  from assms have d: "within_depth h d root"
    by (simp add: apply_filter_eq split: if_splits)
  with assms have h': "h' = filtered_on pattern h (visited h root)"
    by (simp add: apply_filter_eq)
  show ?thesis
    using d by (simp add: h' apply_filter_eq filtered_on_twice)
qed

text \<open>The theorem at the example with the pattern \<^verbatim>\<open>q\<close>.\<close>

theorem apply_filter_idempotent_witness:
  "apply_filter 2 file_with_child 0 ''q''
     = Some (file_with_child(0 := (file_with_child 0)\<lparr>visible_children := [4]\<rparr>,
                             4 := (file_with_child 4)\<lparr>visible_children := []\<rparr>))
   \<and> apply_filter 2
        (file_with_child(0 := (file_with_child 0)\<lparr>visible_children := [4]\<rparr>,
                         4 := (file_with_child 4)\<lparr>visible_children := []\<rparr>))
        0 ''q''
     = Some (file_with_child(0 := (file_with_child 0)\<lparr>visible_children := [4]\<rparr>,
                             4 := (file_with_child 4)\<lparr>visible_children := []\<rparr>))"
  using apply_filter_idempotent [OF file_with_child_filtered] file_with_child_filtered
  by simp

section \<open>Fetching the next batch\<close>

text \<open>
  C8 (as amended). Every \<^verbatim>\<open>fetchMore\<close> sets the node's \<^verbatim>\<open>fetched_items\<close> to the minimum of
  the previous value plus the batch size and the number of visible children, so
  afterwards it does not exceed that number; the visible children and the batch size
  are not changed, so the same holds for every further call.
  When before the call \<^verbatim>\<open>fetched_items\<close> does not exceed the number of visible children
  and the batch size is not negative, the call does not decrease \<^verbatim>\<open>fetched_items\<close>, and
  the rows it announces run from the old row count to the new row count minus one,
  the rows that are new. When \<^verbatim>\<open>canFetchMore\<close> holds and the batch size is positive,
  \<^verbatim>\<open>fetched_items\<close> grows.
\<close>

theorem fetchMore_batch:
  assumes "fetchMore h r idx = (h', first_row, last_row)"
  shows "fetched_items (h' (p_item r idx))
           = min (fetched_items (h (p_item r idx)) + BATCH (h (p_item r idx)))
                 (int (length (visible_children (h (p_item r idx)))))
     \<and> fetched_items (h' (p_item r idx)) \<le> int (length (visible_children (h' (p_item r idx))))
     \<and> visible_children (h' (p_item r idx)) = visible_children (h (p_item r idx))
     \<and> BATCH (h' (p_item r idx)) = BATCH (h (p_item r idx))
     \<and> (fetched_items (h (p_item r idx)) \<le> int (length (visible_children (h (p_item r idx))))
          \<and> 0 \<le> BATCH (h (p_item r idx))
        \<longrightarrow> fetched_items (h (p_item r idx)) \<le> fetched_items (h' (p_item r idx))
          \<and> first_row = rowCount h r idx
          \<and> last_row = rowCount h' r idx - 1)
     \<and> (canFetchMore h idx \<and> 0 < BATCH (h (p_item r idx))
        \<longrightarrow> fetched_items (h (p_item r idx)) < fetched_items (h' (p_item r idx))
          \<and> first_row = rowCount h r idx
          \<and> last_row = rowCount h' r idx - 1)"
proof -
  have "canFetchMore h idx \<longrightarrow>
     fetched_items (h (p_item r idx)) < int (length (visible_children (h (p_item r idx))))"
    by (simp add: canFetchMore_less)
  with assms show ?thesis
    by (auto simp: fetchMore_def rowCount_def Let_def)
qed

text \<open>
  The scenario of the specification: 12,001 visible children, 10,000 of them fetched,
  batch size 10,000. \<^verbatim>\<open>canFetchMore\<close> holds, one \<^verbatim>\<open>fetchMore\<close> brings \<^verbatim>\<open>fetched_items\<close> to
  12,001 and announces the rows 10000 to 12000.
\<close>

theorem fetchMore_batch_witness:
  "canFetchMore big_directory (Some 0)
   \<and> fetched_items (big_directory 0) = 10000
   \<and> BATCH (big_directory 0) = 10000
   \<and> int (length (visible_children (big_directory 0))) = 12001
   \<and> fetched_items (fst (fetchMore big_directory 0 (Some 0)) 0) = 12001
   \<and> snd (fetchMore big_directory 0 (Some 0)) = (10000, 12000)"
proof -
  obtain h' first_row last_row where f: "fetchMore big_directory 0 (Some 0) = (h', first_row, last_row)"
    by (cases "fetchMore big_directory 0 (Some 0)") auto
  have c: "canFetchMore big_directory (Some 0)"
    by (simp add: canFetchMore_def big_directory_node)
  from fetchMore_batch [OF f] c show ?thesis
    by (simp add: f p_item_def big_directory_node rowCount_def)
qed

text \<open>
  The claim as written has \<^verbatim>\<open>fetched_items\<close> never decrease under \<^verbatim>\<open>fetchMore\<close>. A node
  starts with \<^verbatim>\<open>fetched_items\<close> at 10,000, whatever the number of its children. On the
  root of the example store, with four visible children, \<^verbatim>\<open>fetchMore\<close> takes it from
  10,000 down to 4 and announces the rows 10000 to 3. (\<^verbatim>\<open>canFetchMore\<close> is false there:
  a view that asks first does not make this call.)
\<close>

theorem fetchMore_decreases_counterexample:
  "fetched_items (listing 0) = 10000
   \<and> fetchMore listing 0 None = (listing(0 := (listing 0)\<lparr>fetched_items := 4\<rparr>), 10000, 3)
   \<and> fetched_items (fst (fetchMore listing 0 None) 0) < fetched_items (listing 0)"
  by (simp add: fetchMore_def p_item_def listing_nodes)

section \<open>The fetch counter and the number of visible children\<close>

text \<open>
  C2 (as amended). The constructor sets \<^verbatim>\<open>fetched_items\<close> to 10,000 on a node without
  children, and \<^verbatim>\<open>apply_filter\<close> leaves the \<^verbatim>\<open>fetched_items\<close> of every node as it was: the
  counter is not clamped. What never exceeds the number of visible children, also
  after a filter has shortened the list, is the row count of the model, the minimum
  of that number and \<^verbatim>\<open>fetched_items\<close>.
\<close>

theorem rowCount_after_filter:
  assumes "apply_filter d h root pattern = Some h'"
  shows "fetched_items (h' x) = fetched_items (h x)
     \<and> rowCount h' r idx \<le> int (length (visible_children (h' (p_item r idx))))
     \<and> rowCount h' r idx = min (int (length (visible_children (h' (p_item r idx)))))
                                (fetched_items (h (p_item r idx)))
     \<and> fetched_items (FSNode_init p sz md perms ow par) = 10000
     \<and> visible_children (FSNode_init p sz md perms ow par) = []"
proof -
  from assms have "h' = filtered_on pattern h (visited h root)"
    by (simp add: apply_filter_eq split: if_splits)
  then show ?thesis
    by (simp add: rowCount_def FSNode_init_def)
qed

text \<open>
  The theorem at the example with a file that has a child: after filtering with the
  pattern \<^verbatim>\<open>q\<close> the root still has \<^verbatim>\<open>fetched_items\<close> at 10,000 and shows one row.
\<close>

theorem rowCount_after_filter_witness:
  "apply_filter 2 file_with_child 0 ''q'' \<noteq> None
   \<and> fetched_items (the (apply_filter 2 file_with_child 0 ''q'') 0) = 10000
   \<and> rowCount (the (apply_filter 2 file_with_child 0 ''q'')) 0 None = 1"
  using rowCount_after_filter [OF file_with_child_filtered, of 0 0 None]
  by (simp add: file_with_child_filtered file_with_child_nodes p_item_def)

text \<open>
  The claim as written bounds \<^verbatim>\<open>fetched_items\<close> by the number of visible children. A
  node as the constructor leaves it has no visible children and \<^verbatim>\<open>fetched_items\<close> at
  10,000; and in the example the filter \<^verbatim>\<open>q\<close> shortens the visible children of the root
  from two to one while \<^verbatim>\<open>fetched_items\<close> stays at 10,000.
\<close>

theorem fetched_items_exceeds_counterexample:
  "int (length (visible_children (FSNode_init (Path True [''a'']) 0 [] [] [] None)))
     < fetched_items (FSNode_init (Path True [''a'']) 0 [] [] [] None)
   \<and> length (visible_children (file_with_child 0)) = 2
   \<and> length (visible_children (the (apply_filter 2 file_with_child 0 ''q'') 0)) = 1
   \<and> int (length (visible_children (the (apply_filter 2 file_with_child 0 ''q'') 0)))
       < fetched_items (the (apply_filter 2 file_with_child 0 ''q'') 0)"
  by (simp add: file_with_child_filtered file_with_child_nodes FSNode_init_def)

section \<open>Paths of the nodes the tree builder creates\<close>

text \<open>
  C3. The claim asks that no two nodes of a built tree have the same path. Loading,
  into an empty application, the line of the file \<^verbatim>\<open>/a/f\<close> followed by the line of the
  directory \<^verbatim>\<open>/a\<close> returns without an error and creates four nodes: the root, a
  placeholder for \<^verbatim>\<open>/a\<close> (address 1), the file \<^verbatim>\<open>/a/f\<close>, and a second node for \<^verbatim>\<open>/a\<close>
  (address 3). Both nodes for \<^verbatim>\<open>/a\<close> are children of the root, so the paths of the
  nodes are not pairwise different.
\<close>

theorem load_creates_duplicate_paths:
  "\<not> isl (load_hdfs_file None no_nodes 0 file_then_dir)
   \<and> node_paths (fst (projr (load_hdfs_file None no_nodes 0 file_then_dir)))
       = [Path False [], Path True [''a''], Path True [''a'', ''f''], Path True [''a'']]
   \<and> all_children (store (fst (projr (load_hdfs_file None no_nodes 0 file_then_dir))) 0) = [1, 3]
   \<and> \<not> paths_distinct (fst (projr (load_hdfs_file None no_nodes 0 file_then_dir)))"
  by (simp add: paths_distinct_def file_then_dir_paths file_then_dir_loaded file_then_dir_children)

end
